theory Spec2Isabelle
  imports Main
begin

section \<open>The service worker \<open>static/sw.js\<close>\<close>

text \<open>
  The script registers two event listeners on the worker's global scope:
  \<^verbatim>\<open>
  self.addEventListener('install', (event) => {
    event.waitUntil(
      caches.open('expense-cache-v1').then((cache) => cache.addAll([
        '/', '/static/style.css'
      ]))
    );
  });
  self.addEventListener('fetch', (event) => {
    event.respondWith(
      caches.match(event.request).then((resp) => resp || fetch(event.request))
    );
  });
  \<close>
  Both handlers are compositions of calls into the browser: \<open>caches.open\<close>,
  \<open>Cache.addAll\<close>, \<open>caches.match\<close>, \<open>fetch\<close> and promise chaining. The first part of
  this theory models those host operations as state transformers over an explicit
  world (the origin's cache storage and a log of the requests sent to the network);
  the second part transcribes the two handlers over them. The host operations are the
  browser's, not the repository's: each is modelled after the behaviour the Service
  Worker specification gives it for the arguments and default options the script
  calls it with.
\<close>

subsection \<open>Requests, responses, the world\<close>

text \<open>
  A request is its method and its URL. URLs are the strings the script writes
  (\<open>'/'\<close>, \<open>'/static/style.css'\<close>): paths relative to the worker's origin, taken
  as already resolved and without fragment. Request headers are not modelled, so
  neither is header-dependent matching (\<open>Vary\<close>).
  A response is a status code and a body. The network maps a request to the
  response it yields, \<open>None\<close> being a network error.
\<close>

record request =
  meth :: string
  url :: string

record response =
  status :: nat
  body :: string

datatype error = TypeError | InvalidStateError

text \<open>
  A cache is the host's request-response list, oldest entry first. The cache storage
  is the host's name-to-cache map, in order of creation.
\<close>

type_synonym cache = "(request \<times> response) list"

type_synonym cache_storage = "(string \<times> cache) list"

type_synonym network = "request \<Rightarrow> response option"

record world =
  caches :: cache_storage
  net_log :: "request list"

subsection \<open>Promises\<close>

text \<open>
  A promise is a computation on the world that settles either rejected (\<open>Inl\<close>) or
  fulfilled (\<open>Inr\<close>). \<open>p.then(f)\<close> runs \<open>f\<close> on the fulfilment value and passes a
  rejection on; the effects \<open>p\<close> had on the world stay.
\<close>

type_synonym 'a promise = "world \<Rightarrow> (error + 'a) \<times> world"

definition resolve :: "'a \<Rightarrow> 'a promise" where
  "resolve x w = (Inr x, w)"

definition then_p :: "'a promise \<Rightarrow> ('a \<Rightarrow> 'b promise) \<Rightarrow> 'b promise" where
  "then_p p f w = (case p w of (Inl e, w') \<Rightarrow> (Inl e, w') | (Inr x, w') \<Rightarrow> f x w')"

subsection \<open>The host: \<open>fetch\<close>\<close>

text \<open>
  \<open>fetch(request)\<close> sends the request to the network. It rejects with a
  \<open>TypeError\<close> on a network error and fulfils with the response otherwise, whatever
  its status. Every call is recorded in the log.
\<close>

definition fetch :: "network \<Rightarrow> request \<Rightarrow> response promise" where
  "fetch net rq w =
     (case net rq of
        None \<Rightarrow> (Inl TypeError, w\<lparr>net_log := net_log w @ [rq]\<rparr>)
      | Some r \<Rightarrow> (Inr r, w\<lparr>net_log := net_log w @ [rq]\<rparr>))"

subsection \<open>The host: matching and \<open>caches.match\<close>\<close>

text \<open>
  With default options a query matches a cached request when both are \<open>GET\<close>
  requests for the same URL.
\<close>

definition request_matches :: "request \<Rightarrow> request \<Rightarrow> bool" where
  "request_matches q k = (meth q = ''GET'' \<and> meth k = ''GET'' \<and> url q = url k)"

text \<open>\<open>Cache.match\<close>: the response of the first matching entry, or \<open>undefined\<close>.\<close>

fun cache_match :: "cache \<Rightarrow> request \<Rightarrow> response option" where
  "cache_match [] q = None"
| "cache_match ((k, v) # c) q = (if request_matches q k then Some v else cache_match c q)"

text \<open>
  \<open>CacheStorage.match\<close> without a \<open>cacheName\<close> option: the caches are asked in
  order of creation and the first response found is the answer.
\<close>

fun storage_match :: "cache_storage \<Rightarrow> request \<Rightarrow> response option" where
  "storage_match [] q = None"
| "storage_match ((name, c) # cs) q =
     (case cache_match c q of Some v \<Rightarrow> Some v | None \<Rightarrow> storage_match cs q)"

definition caches_match :: "request \<Rightarrow> response option promise" where
  "caches_match q w = (Inr (storage_match (caches w) q), w)"

subsection \<open>The host: \<open>caches.open\<close> and \<open>Cache.addAll\<close>\<close>

text \<open>
  \<open>caches.open(name)\<close> fulfils with the cache of that name, which it creates empty
  at the end of the storage when there is none. The handle it fulfils with is
  modelled by the name.
\<close>

definition caches_open :: "string \<Rightarrow> string promise" where
  "caches_open name w =
     (case map_of (caches w) name of
        Some c \<Rightarrow> (Inr name, w)
      | None \<Rightarrow> (Inr name, w\<lparr>caches := caches w @ [(name, [])]\<rparr>))"

text \<open>A URL string given to \<open>addAll\<close> becomes a \<open>GET\<close> request for it.\<close>

definition Request :: "string \<Rightarrow> request" where
  "Request u = \<lparr>meth = ''GET'', url = u\<rparr>"

text \<open>
  \<open>addAll\<close> accepts a response with an ok status (200 to 299) other than 206.
\<close>

definition addAll_ok :: "response \<Rightarrow> bool" where
  "addAll_ok r = (200 \<le> status r \<and> status r \<le> 299 \<and> status r \<noteq> 206)"

text \<open>
  The fetched responses are collected in order; a network error or a response that
  is not accepted rejects the whole call with a \<open>TypeError\<close>.
\<close>

fun collect_responses :: "response option list \<Rightarrow> error + response list" where
  "collect_responses [] = Inr []"
| "collect_responses (None # rest) = Inl TypeError"
| "collect_responses (Some r # rest) =
     (if addAll_ok r
      then (case collect_responses rest of Inl e \<Rightarrow> Inl e | Inr rs \<Rightarrow> Inr (r # rs))
      else Inl TypeError)"

text \<open>
  The batch of put operations on one cache. A put whose request matches an item
  added earlier in the same batch throws \<open>InvalidStateError\<close>; otherwise it removes
  the entries its request matches and appends the new entry. The second argument
  is the list of items added so far.
\<close>

fun batch_put :: "cache \<Rightarrow> cache \<Rightarrow> (request \<times> response) list \<Rightarrow> error + cache" where
  "batch_put c added [] = Inr c"
| "batch_put c added ((k, v) # ops) =
     (if list_ex (\<lambda>(a, _). request_matches k a) added then Inl InvalidStateError
      else batch_put (filter (\<lambda>(k', _). \<not> request_matches k k') c @ [(k, v)])
             (added @ [(k, v)]) ops)"

definition cache_of :: "cache_storage \<Rightarrow> string \<Rightarrow> cache" where
  "cache_of cs name = (case map_of cs name of None \<Rightarrow> [] | Some c \<Rightarrow> c)"

definition update_cache :: "string \<Rightarrow> cache \<Rightarrow> cache_storage \<Rightarrow> cache_storage" where
  "update_cache name c cs = map (\<lambda>(n, c'). if n = name then (n, c) else (n, c')) cs"

text \<open>
  \<open>cache.addAll(urls)\<close>: every URL is requested from the network (all requests are
  started before any response is looked at), the responses are collected, and only
  when all of them are accepted is the batch of puts applied to the cache. A
  rejection leaves the cache as it was: the host restores it when the batch throws.
  The cache is the one the handle names; were it gone from the storage, the puts
  would work on an empty list and the storage would stay as it is.
\<close>

definition cache_addAll :: "network \<Rightarrow> string \<Rightarrow> string list \<Rightarrow> unit promise" where
  "cache_addAll net name urls w =
     (let rqs = map Request urls;
          w1 = w\<lparr>net_log := net_log w @ rqs\<rparr>
      in case collect_responses (map net rqs) of
           Inl e \<Rightarrow> (Inl e, w1)
         | Inr rs \<Rightarrow>
             (case batch_put (cache_of (caches w1) name) [] (zip rqs rs) of
                Inl e \<Rightarrow> (Inl e, w1)
              | Inr c' \<Rightarrow> (Inr (), w1\<lparr>caches := update_cache name c' (caches w1)\<rparr>)))"

subsection \<open>The host: \<open>waitUntil\<close> and \<open>respondWith\<close>\<close>

text \<open>
  \<open>event.waitUntil(p)\<close> makes the outcome of the install the outcome of \<open>p\<close>;
  \<open>event.respondWith(p)\<close> makes the response to the intercepted request the
  outcome of \<open>p\<close>.
\<close>

definition waitUntil :: "unit promise \<Rightarrow> unit promise" where
  "waitUntil p = p"

definition respondWith :: "response promise \<Rightarrow> response promise" where
  "respondWith p = p"

subsection \<open>The two handlers\<close>

definition install_handler :: "network \<Rightarrow> unit promise" where
  "install_handler net =
     waitUntil
       (then_p (caches_open ''expense-cache-v1'')
          (\<lambda>cache. cache_addAll net cache [''/'', ''/static/style.css'']))"

text \<open>
  \<open>resp || fetch(event.request)\<close>: a response object is truthy, \<open>undefined\<close> is
  not, so the network is asked exactly when the lookup found nothing.
\<close>

definition fetch_handler :: "network \<Rightarrow> request \<Rightarrow> response promise" where
  "fetch_handler net rq =
     respondWith
       (then_p (caches_match rq)
          (\<lambda>resp. case resp of Some r \<Rightarrow> resolve r | None \<Rightarrow> fetch net rq))"

subsection \<open>Stored entries that match a request\<close>

text \<open>
  All entries of the storage that a request matches, cache by cache in order of
  creation and oldest entry first within a cache.
\<close>

definition matching_entries :: "cache_storage \<Rightarrow> request \<Rightarrow> (request \<times> response) list" where
  "matching_entries cs q =
     concat (map (\<lambda>(name, c). filter (\<lambda>(k, v). request_matches q k) c) cs)"

text \<open>
  The fetch of a preload URL fails for \<open>addAll\<close> when the network yields an error
  or a response that \<open>addAll\<close> does not accept.
\<close>

definition fetch_fails :: "network \<Rightarrow> string \<Rightarrow> bool" where
  "fetch_fails net u = (case net (Request u) of None \<Rightarrow> True | Some r \<Rightarrow> \<not> addAll_ok r)"

subsection \<open>Interleaved fetch events\<close>

text \<open>
  The fetch handler suspends twice: while \<open>caches.match\<close> is pending and, on a miss,
  while \<open>fetch\<close> is pending. A fetch event in flight is therefore a task in one of
  three states: its lookup is still to run, its network fetch is still to run, or it
  has settled. The event loop runs one pending host operation at a time; a schedule
  names, step by step, the task whose next operation runs.
\<close>

datatype task = Lookup request | Network request | Done "error + response"

fun step_task :: "network \<Rightarrow> task \<Rightarrow> world \<Rightarrow> task \<times> world" where
  "step_task net (Lookup rq) w =
     (case caches_match rq w of
        (Inl e, w') \<Rightarrow> (Done (Inl e), w')
      | (Inr (Some r), w') \<Rightarrow> (Done (Inr r), w')
      | (Inr None, w') \<Rightarrow> (Network rq, w'))"
| "step_task net (Network rq) w = (case fetch net rq w of (res, w') \<Rightarrow> (Done res, w'))"
| "step_task net (Done res) w = (Done res, w)"

fun run_schedule :: "network \<Rightarrow> nat list \<Rightarrow> task list \<Rightarrow> world \<Rightarrow> task list \<times> world" where
  "run_schedule net [] ts w = (ts, w)"
| "run_schedule net (i # sched) ts w =
     (if i < length ts
      then (case step_task net (ts ! i) w of
              (t', w') \<Rightarrow> run_schedule net sched (ts[i := t']) w')
      else run_schedule net sched ts w)"

subsection \<open>Example networks and worlds\<close>

definition index_page :: response where
  "index_page = \<lparr>status = 200, body = ''<html>expenses</html>''\<rparr>"

definition style_sheet :: response where
  "style_sheet = \<lparr>status = 200, body = ''body{margin:0}''\<rparr>"

definition old_page :: response where
  "old_page = \<lparr>status = 200, body = ''<html>old</html>''\<rparr>"

definition not_found :: response where
  "not_found = \<lparr>status = 404, body = ''not found''\<rparr>"

definition net_up :: network where
  "net_up rq =
     (if url rq = ''/'' then Some index_page
      else if url rq = ''/static/style.css'' then Some style_sheet
      else Some not_found)"

definition net_down :: network where
  "net_down rq = None"

definition net_no_css :: network where
  "net_no_css rq = (if url rq = ''/'' then Some index_page else Some not_found)"

definition world_fresh :: world where
  "world_fresh = \<lparr>caches = [], net_log = []\<rparr>"

definition world_installed :: world where
  "world_installed =
     \<lparr>caches = [(''expense-cache-v1'',
                  [(Request ''/'', old_page), (Request ''/static/style.css'', style_sheet)])],
      net_log = []\<rparr>"

definition world_stale :: world where
  "world_stale =
     \<lparr>caches = [(''expense-cache-v1'', [(Request ''/old.js'', old_page)])],
      net_log = []\<rparr>"

definition world_foreign :: world where
  "world_foreign =
     \<lparr>caches = [(''legacy-cache'', [(Request ''/report'', old_page)]),
                (''expense-cache-v1'',
                  [(Request ''/'', index_page), (Request ''/static/style.css'', style_sheet)])],
      net_log = []\<rparr>"

definition world_later :: world where
  "world_later =
     \<lparr>caches = [(''expense-cache-v1'',
                  [(Request ''/'', index_page), (Request ''/static/style.css'', style_sheet)]),
                (''later-cache'', [(Request ''/'', old_page)])],
      net_log = []\<rparr>"

section \<open>Properties\<close>

subsection \<open>The handlers, unfolded\<close>

lemma fetch_handler_unfold:
  "fetch_handler net rq w =
     (case storage_match (caches w) rq of
        Some r \<Rightarrow> (Inr r, w)
      | None \<Rightarrow> fetch net rq w)"
  by (simp add: fetch_handler_def respondWith_def then_p_def caches_match_def resolve_def
      split: option.split)

subsection \<open>Facts about the host operations\<close>

lemma fetch_unfold:
  "fetch net rq w =
     (case net rq of None \<Rightarrow> Inl TypeError | Some r \<Rightarrow> Inr r, w\<lparr>net_log := net_log w @ [rq]\<rparr>)"
  by (simp add: fetch_def split: option.split)

lemma cache_match_filter:
  "cache_match c q =
     (case filter (\<lambda>(k, v). request_matches q k) c of [] \<Rightarrow> None | (k, v) # _ \<Rightarrow> Some v)"
  by (induction c) auto

lemma storage_match_entries:
  "storage_match cs q =
     (case matching_entries cs q of [] \<Rightarrow> None | (k, v) # _ \<Rightarrow> Some v)"
proof (induction cs)
  case Nil
  show ?case by (simp add: matching_entries_def)
next
  case (Cons nc cs)
  obtain name c where nc: "nc = (name, c)" by (cases nc)
  have split_entries:
    "matching_entries ((name, c) # cs) q =
       filter (\<lambda>(k, v). request_matches q k) c @ matching_entries cs q"
    by (simp add: matching_entries_def)
  show ?case
  proof (cases "filter (\<lambda>(k, v). request_matches q k) c")
    case Nil
    then show ?thesis
      using Cons.IH by (simp add: nc split_entries cache_match_filter)
  next
    case (Cons e es)
    then show ?thesis
      by (cases e) (simp add: nc split_entries cache_match_filter)
  qed
qed

lemma set_matching_entries:
  "set (matching_entries cs q) =
     {(k, v). \<exists>name c. (name, c) \<in> set cs \<and> (k, v) \<in> set c \<and> request_matches q k}"
  by (auto simp: matching_entries_def)

lemma request_matches_Request:
  "request_matches (Request u) k = (k = Request u)"
  by (cases k) (auto simp: request_matches_def Request_def)

lemma cache_of_open:
  "cache_of (caches (snd (caches_open name w))) name' = cache_of (caches w) name'"
  by (auto simp: caches_open_def cache_of_def map_add_def split: option.splits if_splits)

lemma map_of_open:
  "map_of (caches (snd (caches_open name w))) name \<noteq> None"
  by (auto simp: caches_open_def map_add_def split: option.splits)

lemma map_of_update_cache:
  "map_of (update_cache name c cs) name' =
     (if name' = name then map_option (\<lambda>_. c) (map_of cs name) else map_of cs name')"
  by (induction cs) (auto simp: update_cache_def)

lemma collect_two:
  "collect_responses [a, b] =
     (case a of None \<Rightarrow> Inl TypeError
      | Some r1 \<Rightarrow>
          (if addAll_ok r1
           then (case b of None \<Rightarrow> Inl TypeError
                 | Some r2 \<Rightarrow> if addAll_ok r2 then Inr [r1, r2] else Inl TypeError)
           else Inl TypeError))"
  by (cases a; cases b) auto

lemma batch_put_preload:
  "batch_put c [] [(Request ''/'', r1), (Request ''/static/style.css'', r2)] =
     Inr (filter (\<lambda>e. fst e \<noteq> Request ''/'' \<and> fst e \<noteq> Request ''/static/style.css'') c
       @ [(Request ''/'', r1), (Request ''/static/style.css'', r2)])"
proof -
  have ne: "Request ''/static/style.css'' \<noteq> Request ''/''"
    by (simp add: Request_def)
  show ?thesis
    using ne by (simp add: request_matches_Request case_prod_beta)
qed

lemma install_handler_unfold:
  "install_handler net w =
     (let w1 = (snd (caches_open ''expense-cache-v1'' w))
                 \<lparr>net_log := net_log w @ [Request ''/'', Request ''/static/style.css'']\<rparr>
      in if fetch_fails net ''/'' \<or> fetch_fails net ''/static/style.css''
         then (Inl TypeError, w1)
         else (Inr (),
               w1\<lparr>caches :=
                    update_cache ''expense-cache-v1''
                      (filter (\<lambda>e. fst e \<noteq> Request ''/'' \<and> fst e \<noteq> Request ''/static/style.css'')
                         (cache_of (caches w) ''expense-cache-v1'')
                       @ [(Request ''/'', the (net (Request ''/''))),
                          (Request ''/static/style.css'', the (net (Request ''/static/style.css'')))])
                      (caches w1)\<rparr>))"
proof -
  define w0 where "w0 = snd (caches_open ''expense-cache-v1'' w)"
  have w0: "caches_open ''expense-cache-v1'' w = (Inr ''expense-cache-v1'', w0)"
    by (simp add: w0_def caches_open_def split: option.split)
  have log0: "net_log w0 = net_log w"
    using w0 by (auto simp: caches_open_def split: option.splits)
  have c0: "cache_of (caches w0) ''expense-cache-v1'' = cache_of (caches w) ''expense-cache-v1''"
    using cache_of_open [of "''expense-cache-v1''" w "''expense-cache-v1''"] w0 by simp
  have w0': "snd (caches_open ''expense-cache-v1'' w) = w0"
    by (simp add: w0)
  show ?thesis
    unfolding w0'
    by (simp add: install_handler_def waitUntil_def then_p_def w0 cache_addAll_def Let_def
        collect_two fetch_fails_def log0 c0 batch_put_preload
        del: batch_put.simps split: option.split)
qed


lemma cache_match_append:
  "cache_match (xs @ ys) q =
     (case cache_match xs q of Some v \<Rightarrow> Some v | None \<Rightarrow> cache_match ys q)"
  by (induction xs) auto

lemma cache_match_filtered:
  "cache_match (filter (\<lambda>e. fst e \<noteq> Request u \<and> P e) c) (Request u) = None"
  by (induction c) (auto simp: request_matches_Request)

lemma cache_match_filtered':
  "cache_match (filter (\<lambda>e. P e \<and> fst e \<noteq> Request u) c) (Request u) = None"
  by (induction c) (auto simp: request_matches_Request)

lemma storage_match_append:
  "storage_match (pre @ post) q =
     (case storage_match pre q of Some v \<Rightarrow> Some v | None \<Rightarrow> storage_match post q)"
  by (induction pre) (auto split: option.split)

lemma storage_match_none:
  "(\<forall>(n, c) \<in> set cs. cache_match c q = None) \<Longrightarrow> storage_match cs q = None"
  by (induction cs) auto

lemma storage_match_only:
  "distinct (map fst cs) \<Longrightarrow>
   (\<forall>(n, c) \<in> set cs. n \<noteq> name \<longrightarrow> cache_match c q = None) \<Longrightarrow>
   storage_match cs q = cache_match (cache_of cs name) q"
proof (induction cs)
  case Nil
  show ?case by (simp add: cache_of_def)
next
  case (Cons nc cs)
  obtain n c where nc: "nc = (n, c)" by (cases nc)
  show ?case
  proof (cases "n = name")
    case True
    have "name \<notin> fst ` set cs"
      using Cons.prems(1) by (simp add: nc True)
    then have "\<forall>(n', c') \<in> set cs. cache_match c' q = None"
      using Cons.prems(2) by (force simp: nc)
    then have "storage_match cs q = None"
      by (rule storage_match_none)
    then show ?thesis
      by (simp add: nc True cache_of_def split: option.split)
  next
    case False
    have here: "cache_match c q = None"
      using Cons.prems(2) False by (simp add: nc)
    have "storage_match cs q = cache_match (cache_of cs name) q"
      using Cons.prems by (intro Cons.IH) (auto simp: nc)
    then show ?thesis
      using False by (simp add: nc here cache_of_def)
  qed
qed

subsection \<open>Cache hit\<close>

text \<open>
  Claim C1. For every intercepted request that matches an entry stored in some cache
  of the storage, the fetch handler fulfils with the stored response of a matching
  entry (the first one, in order of cache creation and of insertion), unchanged, and
  the world after the handler is the world before it: nothing was sent to the
  network.
\<close>

theorem fetch_hit_serves_stored:
  assumes "(name, c) \<in> set (caches w)" and "(k, v) \<in> set c" and "request_matches rq k"
  shows "\<exists>k' v' rest.
           matching_entries (caches w) rq = (k', v') # rest \<and>
           fetch_handler net rq w = (Inr v', w) \<and>
           net_log (snd (fetch_handler net rq w)) = net_log w \<and>
           (\<exists>name' c'. (name', c') \<in> set (caches w) \<and> (k', v') \<in> set c' \<and>
              request_matches rq k')"
proof -
  have "(k, v) \<in> set (matching_entries (caches w) rq)"
    using assms by (auto simp: set_matching_entries)
  then obtain e rest where m: "matching_entries (caches w) rq = e # rest"
    by (cases "matching_entries (caches w) rq") auto
  obtain k' v' where e: "e = (k', v')" by (cases e)
  have "(k', v') \<in> set (matching_entries (caches w) rq)"
    by (simp add: m e)
  then have stored: "\<exists>name' c'. (name', c') \<in> set (caches w) \<and> (k', v') \<in> set c' \<and>
      request_matches rq k'"
    by (simp add: set_matching_entries)
  have "storage_match (caches w) rq = Some v'"
    by (simp add: storage_match_entries m e)
  then have "fetch_handler net rq w = (Inr v', w)"
    by (simp add: fetch_handler_unfold)
  with m e stored show ?thesis by auto
qed

theorem fetch_hit_serves_stored_witness:
  "fetch_handler net_down (Request ''/'') world_installed = (Inr old_page, world_installed)"
proof -
  have a: "(''expense-cache-v1'',
            [(Request ''/'', old_page), (Request ''/static/style.css'', style_sheet)])
           \<in> set (caches world_installed)"
    by (simp add: world_installed_def)
  have b: "(Request ''/'', old_page)
           \<in> set [(Request ''/'', old_page), (Request ''/static/style.css'', style_sheet)]"
    by simp
  have c: "request_matches (Request ''/'') (Request ''/'')"
    by (simp add: request_matches_Request)
  have m: "matching_entries (caches world_installed) (Request ''/'') = [(Request ''/'', old_page)]"
    by (simp add: matching_entries_def world_installed_def request_matches_def Request_def)
  from fetch_hit_serves_stored [OF a b c, of net_down] m show ?thesis
    by auto
qed

subsection \<open>Cache miss\<close>

text \<open>
  Claim C2. For every intercepted request that no stored entry matches, the outcome
  of the fetch handler is the outcome of \<open>fetch\<close> for that very request, fulfilment
  or rejection alike; exactly one request, the intercepted one, is added to the
  network log, and the caches stay as they were.
\<close>

theorem fetch_miss_asks_network_once:
  assumes "matching_entries (caches w) rq = []"
  shows "fetch_handler net rq w = fetch net rq w \<and>
         fst (fetch_handler net rq w) = (case net rq of None \<Rightarrow> Inl TypeError | Some r \<Rightarrow> Inr r) \<and>
         net_log (snd (fetch_handler net rq w)) = net_log w @ [rq] \<and>
         caches (snd (fetch_handler net rq w)) = caches w"
proof -
  have "storage_match (caches w) rq = None"
    by (simp add: storage_match_entries assms)
  then have "fetch_handler net rq w = fetch net rq w"
    by (simp add: fetch_handler_unfold)
  then show ?thesis
    by (simp add: fetch_unfold)
qed

theorem fetch_miss_asks_network_once_witness:
  "fetch_handler net_up (Request ''/missing'') world_installed =
     (Inr not_found, world_installed\<lparr>net_log := [Request ''/missing'']\<rparr>)"
proof -
  have m: "matching_entries (caches world_installed) (Request ''/missing'') = []"
    by (simp add: matching_entries_def world_installed_def request_matches_def Request_def)
  have n: "net_log world_installed = []"
    by (simp add: world_installed_def)
  from fetch_miss_asks_network_once [OF m, of net_up] show ?thesis
    by (simp add: fetch_unfold net_up_def Request_def n)
qed

text \<open>
  Claim C6. For every intercepted request that no stored entry matches and whose
  network fetch fails, the response promise of the fetch handler rejects, and its
  rejection is the one \<open>fetch\<close> gave: the handler neither catches nor replaces it.
\<close>

theorem fetch_miss_network_error_rejects:
  assumes "matching_entries (caches w) rq = []" and "net rq = None"
  shows "fst (fetch_handler net rq w) = Inl TypeError \<and>
         fst (fetch_handler net rq w) = fst (fetch net rq w)"
proof -
  have "storage_match (caches w) rq = None"
    by (simp add: storage_match_entries assms(1))
  then have "fetch_handler net rq w = fetch net rq w"
    by (simp add: fetch_handler_unfold)
  then show ?thesis
    by (simp add: fetch_unfold assms(2))
qed

theorem fetch_miss_network_error_rejects_witness:
  "fst (fetch_handler net_down (Request ''/missing'') world_installed) = Inl TypeError"
proof -
  have m: "matching_entries (caches world_installed) (Request ''/missing'') = []"
    by (simp add: matching_entries_def world_installed_def request_matches_def Request_def)
  have n: "net_down (Request ''/missing'') = None"
    by (simp add: net_down_def)
  from fetch_miss_network_error_rejects [of world_installed "Request ''/missing''" net_down, OF m n]
  show ?thesis
    by simp
qed

subsection \<open>The fetch handler writes no cache\<close>

text \<open>
  Claim C7. Handling a fetch event leaves the cache storage exactly as it was, on a
  hit as on a miss and whatever the network answers: no entry is added, replaced or
  removed, and no cache is created.
\<close>

theorem fetch_handler_keeps_caches:
  "caches (snd (fetch_handler net rq w)) = caches w"
  by (simp add: fetch_handler_unfold fetch_unfold split: option.split)

theorem fetch_handler_keeps_caches_witness:
  "caches (snd (fetch_handler net_up (Request ''/missing'') world_installed)) =
     [(''expense-cache-v1'',
       [(Request ''/'', old_page), (Request ''/static/style.css'', style_sheet)])]"
  using fetch_handler_keeps_caches [of net_up "Request ''/missing''" world_installed]
  by (simp add: world_installed_def)

subsection \<open>Outcome and effects of the install handler\<close>

lemma install_outcome:
  "fst (install_handler net w) =
     (if fetch_fails net ''/'' \<or> fetch_fails net ''/static/style.css''
      then Inl TypeError else Inr ())"
  by (simp add: install_handler_unfold Let_def)

lemma install_log:
  "net_log (snd (install_handler net w)) =
     net_log w @ [Request ''/'', Request ''/static/style.css'']"
  by (simp add: install_handler_unfold Let_def)

lemma install_failure_caches:
  "fetch_fails net ''/'' \<or> fetch_fails net ''/static/style.css'' \<Longrightarrow>
   caches (snd (install_handler net w)) = caches (snd (caches_open ''expense-cache-v1'' w))"
  by (simp add: install_handler_unfold Let_def)

lemma install_success_cache:
  assumes "\<not> fetch_fails net ''/''" and "\<not> fetch_fails net ''/static/style.css''"
  shows "map_of (caches (snd (install_handler net w))) ''expense-cache-v1'' =
           Some (filter (\<lambda>e. fst e \<noteq> Request ''/'' \<and> fst e \<noteq> Request ''/static/style.css'')
                   (cache_of (caches w) ''expense-cache-v1'')
                 @ [(Request ''/'', the (net (Request ''/''))),
                    (Request ''/static/style.css'', the (net (Request ''/static/style.css'')))])"
proof -
  obtain c0 where "map_of (caches (snd (caches_open ''expense-cache-v1'' w))) ''expense-cache-v1''
      = Some c0"
    using map_of_open [of "''expense-cache-v1''" w] by auto
  then show ?thesis
    using assms by (simp add: install_handler_unfold Let_def map_of_update_cache)
qed

lemma fetch_fails_Some:
  "\<not> fetch_fails net u \<Longrightarrow> \<exists>r. net (Request u) = Some r \<and> addAll_ok r"
  by (auto simp: fetch_fails_def split: option.splits)

lemma install_success_answers:
  assumes "\<not> fetch_fails net ''/''" and "\<not> fetch_fails net ''/static/style.css''"
  shows "cache_match (cache_of (caches (snd (install_handler net w))) ''expense-cache-v1'')
           (Request ''/'') = net (Request ''/'') \<and>
         cache_match (cache_of (caches (snd (install_handler net w))) ''expense-cache-v1'')
           (Request ''/static/style.css'') = net (Request ''/static/style.css'')"
proof -
  obtain r1 where r1: "net (Request ''/'') = Some r1"
    using fetch_fails_Some [OF assms(1)] by auto
  obtain r2 where r2: "net (Request ''/static/style.css'') = Some r2"
    using fetch_fails_Some [OF assms(2)] by auto
  have ne: "Request ''/static/style.css'' \<noteq> Request ''/''"
    by (simp add: Request_def)
  have stored: "cache_of (caches (snd (install_handler net w))) ''expense-cache-v1'' =
      filter (\<lambda>e. fst e \<noteq> Request ''/'' \<and> fst e \<noteq> Request ''/static/style.css'')
        (cache_of (caches w) ''expense-cache-v1'')
      @ [(Request ''/'', r1), (Request ''/static/style.css'', r2)]"
    using install_success_cache [OF assms, of w] by (simp add: cache_of_def r1 r2)
  show ?thesis
    unfolding stored using ne
    by (simp add: cache_match_append cache_match_filtered cache_match_filtered'
        request_matches_Request r1 r2)
qed

subsection \<open>A successful install\<close>

text \<open>
  Claim C3, as amended. After the install handler has completed successfully, the
  partition \<open>expense-cache-v1\<close> exists and holds, after every entry for another request
  that it held before, one entry for \<open>/\<close> and one for \<open>/static/style.css\<close> with the
  responses just fetched. It holds exactly those two entries when it was absent, empty
  or held entries for these two URLs only.
\<close>

theorem install_success_partition:
  assumes "fst (install_handler net w) = Inr ()"
  shows "\<exists>r1 r2.
           net (Request ''/'') = Some r1 \<and> net (Request ''/static/style.css'') = Some r2 \<and>
           map_of (caches (snd (install_handler net w))) ''expense-cache-v1'' =
             Some (filter (\<lambda>e. fst e \<noteq> Request ''/'' \<and> fst e \<noteq> Request ''/static/style.css'')
                     (cache_of (caches w) ''expense-cache-v1'')
                   @ [(Request ''/'', r1), (Request ''/static/style.css'', r2)]) \<and>
           ((\<forall>e \<in> set (cache_of (caches w) ''expense-cache-v1'').
                fst e = Request ''/'' \<or> fst e = Request ''/static/style.css'') \<longrightarrow>
            cache_of (caches (snd (install_handler net w))) ''expense-cache-v1'' =
              [(Request ''/'', r1), (Request ''/static/style.css'', r2)])"
proof -
  have ok: "\<not> fetch_fails net ''/''" "\<not> fetch_fails net ''/static/style.css''"
    using assms by (auto simp: install_outcome split: if_splits)
  obtain r1 where r1: "net (Request ''/'') = Some r1"
    using fetch_fails_Some [OF ok(1)] by auto
  obtain r2 where r2: "net (Request ''/static/style.css'') = Some r2"
    using fetch_fails_Some [OF ok(2)] by auto
  have stored: "map_of (caches (snd (install_handler net w))) ''expense-cache-v1'' =
      Some (filter (\<lambda>e. fst e \<noteq> Request ''/'' \<and> fst e \<noteq> Request ''/static/style.css'')
              (cache_of (caches w) ''expense-cache-v1'')
            @ [(Request ''/'', r1), (Request ''/static/style.css'', r2)])"
    using install_success_cache [OF ok, of w] by (simp add: r1 r2)
  have exact: "cache_of (caches (snd (install_handler net w))) ''expense-cache-v1'' =
      [(Request ''/'', r1), (Request ''/static/style.css'', r2)]"
    if "\<forall>e \<in> set (cache_of (caches w) ''expense-cache-v1'').
          fst e = Request ''/'' \<or> fst e = Request ''/static/style.css''"
  proof -
    have "filter (\<lambda>e. fst e \<noteq> Request ''/'' \<and> fst e \<noteq> Request ''/static/style.css'')
            (cache_of (caches w) ''expense-cache-v1'') = []"
      using that by (auto simp: filter_empty_conv)
    then show ?thesis
      by (simp add: cache_of_def stored)
  qed
  from r1 r2 stored exact show ?thesis by blast
qed

theorem install_success_partition_witness:
  "fst (install_handler net_up world_fresh) = Inr () \<and>
   cache_of (caches (snd (install_handler net_up world_fresh))) ''expense-cache-v1'' =
     [(Request ''/'', index_page), (Request ''/static/style.css'', style_sheet)]"
proof -
  have ok: "fst (install_handler net_up world_fresh) = Inr ()"
    by (simp add: install_outcome fetch_fails_def net_up_def Request_def addAll_ok_def
        index_page_def style_sheet_def)
  have empty: "cache_of (caches world_fresh) ''expense-cache-v1'' = []"
    by (simp add: world_fresh_def cache_of_def)
  have n1: "net_up (Request ''/'') = Some index_page"
    by (simp add: net_up_def Request_def)
  have n2: "net_up (Request ''/static/style.css'') = Some style_sheet"
    by (simp add: net_up_def Request_def)
  from install_success_partition [OF ok] show ?thesis
    by (simp add: ok empty n1 n2)
qed

text \<open>
  The partition need not hold exactly the two preload entries: an entry that was in it
  before the install is still there afterwards.
\<close>

theorem install_exactly_two_counterexample:
  "fst (install_handler net_up world_stale) = Inr () \<and>
   map fst (cache_of (caches (snd (install_handler net_up world_stale))) ''expense-cache-v1'') =
     [Request ''/old.js'', Request ''/'', Request ''/static/style.css'']"
proof -
  have ok: "\<not> fetch_fails net_up ''/''" "\<not> fetch_fails net_up ''/static/style.css''"
    by (simp_all add: fetch_fails_def net_up_def Request_def addAll_ok_def
        index_page_def style_sheet_def)
  have old: "cache_of (caches world_stale) ''expense-cache-v1'' = [(Request ''/old.js'', old_page)]"
    by (simp add: world_stale_def cache_of_def)
  have ne: "Request ''/old.js'' \<noteq> Request ''/''" "Request ''/old.js'' \<noteq> Request ''/static/style.css''"
    by (simp_all add: Request_def)
  have stored:
    "map_of (caches (snd (install_handler net_up world_stale))) ''expense-cache-v1'' =
       Some [(Request ''/old.js'', old_page), (Request ''/'', the (net_up (Request ''/''))),
             (Request ''/static/style.css'', the (net_up (Request ''/static/style.css'')))]"
    using ne by (simp add: install_success_cache [OF ok] old)
  have "cache_of (caches (snd (install_handler net_up world_stale))) ''expense-cache-v1'' =
       [(Request ''/old.js'', old_page), (Request ''/'', the (net_up (Request ''/''))),
        (Request ''/static/style.css'', the (net_up (Request ''/static/style.css'')))]"
    unfolding cache_of_def stored by simp
  then show ?thesis
    using ok by (simp add: install_outcome)
qed

subsection \<open>A failed preload\<close>

text \<open>
  Claim C5. If the fetch of either preload URL fails, the install handler rejects.
  Each URL was requested once and no more (no retry), and no entry was stored: every
  cache holds what it held before, the partition \<open>expense-cache-v1\<close> having at most
  been created empty by \<open>caches.open\<close>. The response of a preload that did succeed is
  dropped with the rest.
\<close>

theorem install_all_or_nothing:
  assumes "fetch_fails net ''/'' \<or> fetch_fails net ''/static/style.css''"
  shows "fst (install_handler net w) = Inl TypeError \<and>
         net_log (snd (install_handler net w)) =
           net_log w @ [Request ''/'', Request ''/static/style.css''] \<and>
         caches (snd (install_handler net w)) =
           caches (snd (caches_open ''expense-cache-v1'' w)) \<and>
         cache_of (caches (snd (install_handler net w))) name = cache_of (caches w) name"
  using assms
  by (simp add: install_outcome install_log install_failure_caches cache_of_open)

theorem install_all_or_nothing_witness:
  "fst (install_handler net_no_css world_fresh) = Inl TypeError \<and>
   net_log (snd (install_handler net_no_css world_fresh)) =
     [Request ''/'', Request ''/static/style.css''] \<and>
   caches (snd (install_handler net_no_css world_fresh)) = [(''expense-cache-v1'', [])]"
proof -
  have f: "fetch_fails net_no_css ''/'' \<or> fetch_fails net_no_css ''/static/style.css''"
    by (simp add: fetch_fails_def net_no_css_def Request_def addAll_ok_def not_found_def)
  from install_all_or_nothing [OF f, of world_fresh] show ?thesis
    by (simp add: world_fresh_def caches_open_def)
qed

subsection \<open>Running the install again\<close>

text \<open>
  Claim C8, as amended. When the partition \<open>expense-cache-v1\<close> already exists and
  already holds entries for the two preload URLs, running the install handler again
  succeeds provided both preload fetches succeed again, and rejects otherwise. Either
  way the set of requests that have an entry in the partition is the same afterwards,
  and so are the entries for requests other than the two preload URLs. When the run
  succeeds, the responses stored for the two preload URLs are replaced: the partition
  then answers each of them with the response just fetched. When it rejects, the whole
  cache storage is as it was.
\<close>

theorem reinstall_keeps_entry_keys:
  assumes "map_of (caches w) ''expense-cache-v1'' = Some c"
    and "Request ''/'' \<in> fst ` set c"
    and "Request ''/static/style.css'' \<in> fst ` set c"
  shows "fst (install_handler net w) =
           (if fetch_fails net ''/'' \<or> fetch_fails net ''/static/style.css''
            then Inl TypeError else Inr ()) \<and>
         fst ` set (cache_of (caches (snd (install_handler net w))) ''expense-cache-v1'') =
           fst ` set c \<and>
         {e \<in> set (cache_of (caches (snd (install_handler net w))) ''expense-cache-v1'').
            fst e \<noteq> Request ''/'' \<and> fst e \<noteq> Request ''/static/style.css''} =
           {e \<in> set c. fst e \<noteq> Request ''/'' \<and> fst e \<noteq> Request ''/static/style.css''} \<and>
         (fst (install_handler net w) = Inr () \<longrightarrow>
            cache_match (cache_of (caches (snd (install_handler net w))) ''expense-cache-v1'')
              (Request ''/'') = net (Request ''/'') \<and>
            cache_match (cache_of (caches (snd (install_handler net w))) ''expense-cache-v1'')
              (Request ''/static/style.css'') = net (Request ''/static/style.css'')) \<and>
         (fst (install_handler net w) = Inl TypeError \<longrightarrow>
            caches (snd (install_handler net w)) = caches w)"
proof (cases "fetch_fails net ''/'' \<or> fetch_fails net ''/static/style.css''")
  case True
  have "caches (snd (caches_open ''expense-cache-v1'' w)) = caches w"
    by (simp add: caches_open_def assms(1))
  then have "caches (snd (install_handler net w)) = caches w"
    using True by (simp add: install_failure_caches)
  then show ?thesis
    using True by (simp add: install_outcome cache_of_def assms(1))
next
  case False
  then have ok: "\<not> fetch_fails net ''/''" "\<not> fetch_fails net ''/static/style.css''"
    by simp_all
  have old: "cache_of (caches w) ''expense-cache-v1'' = c"
    by (simp add: cache_of_def assms(1))
  have new: "cache_of (caches (snd (install_handler net w))) ''expense-cache-v1'' =
      filter (\<lambda>e. fst e \<noteq> Request ''/'' \<and> fst e \<noteq> Request ''/static/style.css'') c
      @ [(Request ''/'', the (net (Request ''/''))),
         (Request ''/static/style.css'', the (net (Request ''/static/style.css'')))]"
    unfolding cache_of_def install_success_cache [OF ok] old [symmetric] by simp
  have keys: "fst ` set (cache_of (caches (snd (install_handler net w))) ''expense-cache-v1'') =
      fst ` set c"
    unfolding new using assms(2,3) by auto
  have others: "{e \<in> set (cache_of (caches (snd (install_handler net w))) ''expense-cache-v1'').
            fst e \<noteq> Request ''/'' \<and> fst e \<noteq> Request ''/static/style.css''} =
           {e \<in> set c. fst e \<noteq> Request ''/'' \<and> fst e \<noteq> Request ''/static/style.css''}"
    unfolding new by auto
  note fresh = install_success_answers [OF ok, of w]
  from False keys others fresh show ?thesis
    by (simp add: install_outcome)
qed

theorem reinstall_keeps_entry_keys_witness:
  "fst (install_handler net_up world_installed) = Inr () \<and>
   fst ` set (cache_of (caches (snd (install_handler net_up world_installed))) ''expense-cache-v1'') =
     {Request ''/'', Request ''/static/style.css''} \<and>
   cache_match (cache_of (caches world_installed) ''expense-cache-v1'') (Request ''/'') =
     Some old_page \<and>
   cache_match (cache_of (caches (snd (install_handler net_up world_installed)))
      ''expense-cache-v1'') (Request ''/'') = Some index_page \<and>
   cache_match (cache_of (caches (snd (install_handler net_up world_installed)))
      ''expense-cache-v1'') (Request ''/static/style.css'') = Some style_sheet"
proof -
  have before: "cache_match (cache_of (caches world_installed) ''expense-cache-v1'')
      (Request ''/'') = Some old_page"
    by (simp add: world_installed_def cache_of_def request_matches_Request)
  have n: "net_up (Request ''/'') = Some index_page"
    "net_up (Request ''/static/style.css'') = Some style_sheet"
    by (simp_all add: net_up_def Request_def)
  have a: "map_of (caches world_installed) ''expense-cache-v1'' =
      Some [(Request ''/'', old_page), (Request ''/static/style.css'', style_sheet)]"
    by (simp add: world_installed_def)
  have b: "Request ''/'' \<in> fst ` set [(Request ''/'', old_page), (Request ''/static/style.css'', style_sheet)]"
    by simp
  have c: "Request ''/static/style.css'' \<in>
      fst ` set [(Request ''/'', old_page), (Request ''/static/style.css'', style_sheet)]"
    by simp
  have ok: "\<not> (fetch_fails net_up ''/'' \<or> fetch_fails net_up ''/static/style.css'')"
    by (simp add: fetch_fails_def net_up_def Request_def addAll_ok_def
        index_page_def style_sheet_def)
  from reinstall_keeps_entry_keys [OF a b c, of net_up] ok before n show ?thesis
    by simp
qed

text \<open>
  Running the install again can fail, and when it succeeds the stored responses need
  not be the ones stored before.
\<close>

theorem reinstall_counterexample:
  "fst (install_handler net_down world_installed) = Inl TypeError \<and>
   cache_of (caches (snd (install_handler net_up world_installed))) ''expense-cache-v1'' \<noteq>
     cache_of (caches world_installed) ''expense-cache-v1''"
proof -
  have down: "fst (install_handler net_down world_installed) = Inl TypeError"
    by (simp add: install_outcome fetch_fails_def net_down_def)
  have ok: "\<not> fetch_fails net_up ''/''" "\<not> fetch_fails net_up ''/static/style.css''"
    by (simp_all add: fetch_fails_def net_up_def Request_def addAll_ok_def
        index_page_def style_sheet_def)
  have old: "cache_of (caches world_installed) ''expense-cache-v1'' =
      [(Request ''/'', old_page), (Request ''/static/style.css'', style_sheet)]"
    by (simp add: world_installed_def cache_of_def)
  have new: "cache_of (caches (snd (install_handler net_up world_installed))) ''expense-cache-v1'' =
      [(Request ''/'', the (net_up (Request ''/''))),
       (Request ''/static/style.css'', the (net_up (Request ''/static/style.css'')))]"
    unfolding cache_of_def install_success_cache [OF ok] unfolding cache_of_def [symmetric] old
    by simp
  have "the (net_up (Request ''/'')) \<noteq> old_page"
    by (simp add: net_up_def Request_def index_page_def old_page_def)
  then show ?thesis
    unfolding new old using down by simp
qed

subsection \<open>The install handler reads no cache\<close>

text \<open>
  Claim C10. Whatever the cache storage holds, the install handler requests both
  preload URLs from the network; whether it succeeds depends on the network alone; and
  after a successful run the partition \<open>expense-cache-v1\<close> answers a request for either
  preload URL with the response just fetched, whatever was stored for it before. With
  a failing fetch the run rejects even when valid entries are already stored.
\<close>

theorem install_always_refetches:
  "net_log (snd (install_handler net w)) =
     net_log w @ [Request ''/'', Request ''/static/style.css''] \<and>
   fst (install_handler net w) =
     (if fetch_fails net ''/'' \<or> fetch_fails net ''/static/style.css''
      then Inl TypeError else Inr ()) \<and>
   (fst (install_handler net w) = Inr () \<longrightarrow>
      cache_match (cache_of (caches (snd (install_handler net w))) ''expense-cache-v1'')
        (Request ''/'') = net (Request ''/'') \<and>
      cache_match (cache_of (caches (snd (install_handler net w))) ''expense-cache-v1'')
        (Request ''/static/style.css'') = net (Request ''/static/style.css''))"
proof -
  have fresh:
    "cache_match (cache_of (caches (snd (install_handler net w))) ''expense-cache-v1'')
        (Request ''/'') = net (Request ''/'') \<and>
     cache_match (cache_of (caches (snd (install_handler net w))) ''expense-cache-v1'')
        (Request ''/static/style.css'') = net (Request ''/static/style.css'')"
    if ok: "\<not> fetch_fails net ''/''" "\<not> fetch_fails net ''/static/style.css''"
  proof -
    obtain r1 where r1: "net (Request ''/'') = Some r1"
      using fetch_fails_Some [OF ok(1)] by auto
    obtain r2 where r2: "net (Request ''/static/style.css'') = Some r2"
      using fetch_fails_Some [OF ok(2)] by auto
    have ne: "Request ''/static/style.css'' \<noteq> Request ''/''"
      by (simp add: Request_def)
    have new: "cache_of (caches (snd (install_handler net w))) ''expense-cache-v1'' =
        filter (\<lambda>e. fst e \<noteq> Request ''/'' \<and> fst e \<noteq> Request ''/static/style.css'')
          (cache_of (caches w) ''expense-cache-v1'')
        @ [(Request ''/'', r1), (Request ''/static/style.css'', r2)]"
      using install_success_cache [OF ok, of w] by (simp add: cache_of_def r1 r2)
    show ?thesis
      unfolding new using ne
      by (simp add: cache_match_append cache_match_filtered cache_match_filtered'
          request_matches_Request r1 r2)
  qed
  show ?thesis
    using fresh by (simp add: install_log install_outcome)
qed

theorem install_always_refetches_witness:
  "net_log (snd (install_handler net_up world_installed)) =
     [Request ''/'', Request ''/static/style.css''] \<and>
   cache_match (cache_of (caches world_installed) ''expense-cache-v1'') (Request ''/'') =
     Some old_page \<and>
   cache_match (cache_of (caches (snd (install_handler net_up world_installed)))
      ''expense-cache-v1'') (Request ''/'') = Some index_page \<and>
   fst (install_handler net_down world_installed) = Inl TypeError"
proof -
  have ok: "\<not> (fetch_fails net_up ''/'' \<or> fetch_fails net_up ''/static/style.css'')"
    by (simp add: fetch_fails_def net_up_def Request_def addAll_ok_def
        index_page_def style_sheet_def)
  have old: "cache_match (cache_of (caches world_installed) ''expense-cache-v1'') (Request ''/'') =
     Some old_page"
    by (simp add: world_installed_def cache_of_def request_matches_Request)
  have n: "net_up (Request ''/'') = Some index_page" "net_log world_installed = []"
    by (simp_all add: net_up_def Request_def world_installed_def)
  have down: "fetch_fails net_down ''/''"
    by (simp add: fetch_fails_def net_down_def)
  from install_always_refetches [of net_up world_installed]
    install_always_refetches [of net_down world_installed] ok old n down
  show ?thesis
    by simp
qed

subsection \<open>Which caches the lookup consults\<close>

text \<open>
  Claim C4, as amended. The lookup of the fetch handler names no partition: it asks
  the caches of the origin's storage in order of creation, and the first cache that
  holds a matching entry answers, whatever its name. So the partition
  \<open>expense-cache-v1\<close> answers when it holds a matching entry and no cache created
  before it does; and when no other cache holds a matching entry at all, as when it
  is the only cache, the lookup finds what that partition holds for the request and
  nothing else.
\<close>

theorem lookup_consults_every_cache:
  "(caches w = pre @ (name, c) # post \<longrightarrow>
      (\<forall>(n, c') \<in> set pre. cache_match c' rq = None) \<longrightarrow>
      cache_match c rq = Some v \<longrightarrow>
      fetch_handler net rq w = (Inr v, w)) \<and>
   (distinct (map fst (caches w)) \<longrightarrow>
      (\<forall>(n, c') \<in> set (caches w). n \<noteq> ''expense-cache-v1'' \<longrightarrow> cache_match c' rq = None) \<longrightarrow>
      caches_match rq w =
        (Inr (cache_match (cache_of (caches w) ''expense-cache-v1'') rq), w))"
proof (intro conjI impI)
  assume shape: "caches w = pre @ (name, c) # post"
    and earlier: "\<forall>(n, c') \<in> set pre. cache_match c' rq = None"
    and here: "cache_match c rq = Some v"
  have "storage_match pre rq = None"
    using earlier by (rule storage_match_none)
  then have "storage_match (caches w) rq = Some v"
    by (simp add: shape storage_match_append here)
  then show "fetch_handler net rq w = (Inr v, w)"
    by (simp add: fetch_handler_unfold)
next
  assume "distinct (map fst (caches w))"
    and "\<forall>(n, c') \<in> set (caches w). n \<noteq> ''expense-cache-v1'' \<longrightarrow> cache_match c' rq = None"
  then have "storage_match (caches w) rq =
      cache_match (cache_of (caches w) ''expense-cache-v1'') rq"
    by (rule storage_match_only)
  then show "caches_match rq w =
      (Inr (cache_match (cache_of (caches w) ''expense-cache-v1'') rq), w)"
    by (simp add: caches_match_def)
qed

theorem lookup_consults_every_cache_witness:
  "fetch_handler net_down (Request ''/'') world_foreign = (Inr index_page, world_foreign) \<and>
   fetch_handler net_down (Request ''/'') world_later = (Inr index_page, world_later) \<and>
   caches_match (Request ''/missing'') world_installed = (Inr None, world_installed)"
proof -
  have shape': "caches world_later =
      [] @ (''expense-cache-v1'',
          [(Request ''/'', index_page), (Request ''/static/style.css'', style_sheet)])
        # [(''later-cache'', [(Request ''/'', old_page)])]"
    by (simp add: world_later_def)
  have earlier': "\<forall>(n, c') \<in> set ([] :: cache_storage). cache_match c' (Request ''/'') = None"
    by simp
  have shape: "caches world_foreign =
      [(''legacy-cache'', [(Request ''/report'', old_page)])]
      @ (''expense-cache-v1'',
          [(Request ''/'', index_page), (Request ''/static/style.css'', style_sheet)]) # []"
    by (simp add: world_foreign_def)
  have earlier: "\<forall>(n, c') \<in> set [(''legacy-cache'', [(Request ''/report'', old_page)])].
      cache_match c' (Request ''/'') = None"
    by (simp add: request_matches_def Request_def)
  have here: "cache_match [(Request ''/'', index_page), (Request ''/static/style.css'', style_sheet)]
      (Request ''/'') = Some index_page"
    by (simp add: request_matches_def Request_def)
  have d: "distinct (map fst (caches world_installed))"
    by (simp add: world_installed_def)
  have only: "\<forall>(n, c') \<in> set (caches world_installed).
      n \<noteq> ''expense-cache-v1'' \<longrightarrow> cache_match c' (Request ''/missing'') = None"
    by (simp add: world_installed_def)
  have miss: "cache_match (cache_of (caches world_installed) ''expense-cache-v1'')
      (Request ''/missing'') = None"
    by (simp add: world_installed_def cache_of_def request_matches_def Request_def)
  from lookup_consults_every_cache
    [of world_foreign "[(''legacy-cache'', [(Request ''/report'', old_page)])]"
      "''expense-cache-v1''"
      "[(Request ''/'', index_page), (Request ''/static/style.css'', style_sheet)]" "[]"
      "Request ''/''" index_page net_down]
    shape earlier here
  have first: "fetch_handler net_down (Request ''/'') world_foreign = (Inr index_page, world_foreign)"
    by blast
  from lookup_consults_every_cache [of world_installed _ _ _ _ "Request ''/missing''"] d only
  have third: "caches_match (Request ''/missing'') world_installed =
      (Inr (cache_match (cache_of (caches world_installed) ''expense-cache-v1'')
         (Request ''/missing'')), world_installed)"
    by blast
  from lookup_consults_every_cache
    [of world_later "[]" "''expense-cache-v1''"
      "[(Request ''/'', index_page), (Request ''/static/style.css'', style_sheet)]"
      "[(''later-cache'', [(Request ''/'', old_page)])]"
      "Request ''/''" index_page net_down]
    shape' earlier' here
  have second: "fetch_handler net_down (Request ''/'') world_later = (Inr index_page, world_later)"
    by blast
  from first second third miss show ?thesis by simp
qed

text \<open>
  A request that has no entry in \<open>expense-cache-v1\<close> is answered from another cache of
  the storage, with the network down.
\<close>

theorem lookup_only_partition_counterexample:
  "cache_match (cache_of (caches world_foreign) ''expense-cache-v1'') (Request ''/report'') = None \<and>
   net_down (Request ''/report'') = None \<and>
   fetch_handler net_down (Request ''/report'') world_foreign = (Inr old_page, world_foreign)"
  by (simp add: fetch_handler_unfold world_foreign_def cache_of_def request_matches_def
      Request_def net_down_def)

subsection \<open>Interleaved fetch events, step by step\<close>

lemma step_task_caches:
  "caches (snd (step_task net t w)) = caches w"
  by (cases t) (auto simp: caches_match_def fetch_unfold split: option.split)

lemma step_task_local:
  "caches w = caches w' \<Longrightarrow> fst (step_task net t w) = fst (step_task net t w')"
  by (cases t) (auto simp: caches_match_def fetch_unfold split: option.split)

lemma step_task_twice:
  "fst (step_task net (fst (step_task net (Lookup rq) w)) w) = Done (fst (fetch_handler net rq w))"
  by (simp add: caches_match_def fetch_handler_unfold fetch_unfold split: option.split)

lemma step_task_Done:
  "((\<lambda>t. fst (step_task net t w)) ^^ n) (Done res) = Done res"
  by (induction n) auto

lemma run_schedule_local:
  "i < length ts \<Longrightarrow>
   fst (run_schedule net sched ts w) ! i =
     ((\<lambda>t. fst (step_task net t w)) ^^ count_list sched i) (ts ! i) \<and>
   caches (snd (run_schedule net sched ts w)) = caches w"
proof (induction sched arbitrary: ts w)
  case Nil
  show ?case by simp
next
  case (Cons j sched)
  show ?case
  proof (cases "j < length ts")
    case False
    then have "j \<noteq> i" using Cons.prems by auto
    with False Cons.IH [OF Cons.prems] show ?thesis by simp
  next
    case True
    obtain t' w' where st: "step_task net (ts ! j) w = (t', w')"
      by (cases "step_task net (ts ! j) w")
    have cw: "caches w' = caches w"
      using step_task_caches [of net "ts ! j" w] by (simp add: st)
    have same: "(\<lambda>t. fst (step_task net t w')) = (\<lambda>t. fst (step_task net t w))"
      using step_task_local [OF cw] by auto
    have len: "i < length (ts[j := t'])"
      using Cons.prems by simp
    note IH = Cons.IH [OF len, of w', unfolded same cw]
    have run: "run_schedule net (j # sched) ts w = run_schedule net sched (ts[j := t']) w'"
      using True by (simp add: st)
    show ?thesis
    proof (cases "j = i")
      case True
      have t': "t' = fst (step_task net (ts ! i) w)"
        using st True by simp
      have here: "(ts[j := t']) ! i = fst (step_task net (ts ! i) w)"
        using Cons.prems True by (simp add: t')
      have count: "count_list (j # sched) i = Suc (count_list sched i)"
        using True by simp
      have swap:
        "((\<lambda>t. fst (step_task net t w)) ^^ count_list sched i) (fst (step_task net (ts ! i) w)) =
         fst (step_task net
           (((\<lambda>t. fst (step_task net t w)) ^^ count_list sched i) (ts ! i)) w)"
        using funpow_swap1 [of "\<lambda>t. fst (step_task net t w)" "count_list sched i" "ts ! i"]
        by simp
      show ?thesis
        unfolding run count using IH
        by (simp add: here swap)
    next
      case False
      have here: "(ts[j := t']) ! i = ts ! i"
        using False by simp
      have count: "count_list (j # sched) i = count_list sched i"
        using False by simp
      show ?thesis
        unfolding run count using IH by (simp only: here)
    qed
  qed
qed

text \<open>
  Claim C9. Several fetch events are in flight, each at its lookup; the event loop
  runs their pending host operations one at a time in any order. Whatever the order,
  every event that was given its two steps has settled with the outcome the fetch
  handler has for its request when it runs alone on the initial world, and the cache
  storage is the initial one: no step writes it, so no step can see another's effect.
  The network is taken to answer a request the same way throughout, and no install
  runs in between.
\<close>

theorem interleaved_fetches_independent:
  assumes "i < length rqs" and "2 \<le> count_list sched i"
  shows "fst (run_schedule net sched (map Lookup rqs) w) ! i =
           Done (fst (fetch_handler net (rqs ! i) w)) \<and>
         caches (snd (run_schedule net sched (map Lookup rqs) w)) = caches w"
proof -
  obtain n where n: "count_list sched i = Suc (Suc n)"
    using assms(2) by (metis numeral_2_eq_2 add_2_eq_Suc' le_Suc_ex add.commute)
  have len: "i < length (map Lookup rqs)"
    using assms(1) by simp
  have "((\<lambda>t. fst (step_task net t w)) ^^ Suc (Suc n)) (Lookup (rqs ! i)) =
      ((\<lambda>t. fst (step_task net t w)) ^^ n)
        (fst (step_task net (fst (step_task net (Lookup (rqs ! i)) w)) w))"
    by (simp only: funpow_Suc_right o_apply)
  also have "\<dots> = Done (fst (fetch_handler net (rqs ! i) w))"
    by (simp only: step_task_twice step_task_Done)
  finally show ?thesis
    using run_schedule_local [OF len, of net sched w] assms(1) by (simp add: n)
qed

theorem interleaved_fetches_independent_witness:
  "fst (run_schedule net_up [0, 1, 1, 0] (map Lookup [Request ''/'', Request ''/missing''])
      world_installed) ! 0 = Done (Inr old_page) \<and>
   fst (run_schedule net_up [1, 0, 0, 1] (map Lookup [Request ''/'', Request ''/missing''])
      world_installed) ! 1 = Done (Inr not_found)"
proof -
  have l0: "0 < length [Request ''/'', Request ''/missing'']" by simp
  have l1: "1 < length [Request ''/'', Request ''/missing'']" by simp
  have c0: "2 \<le> count_list [0, 1, 1, 0] (0::nat)" by simp
  have c1: "2 \<le> count_list [1, 0, 0, 1] (1::nat)" by simp
  have h0: "fst (fetch_handler net_up (Request ''/'') world_installed) = Inr old_page"
    by (simp add: fetch_handler_unfold world_installed_def request_matches_def Request_def)
  have h1: "fst (fetch_handler net_up (Request ''/missing'') world_installed) = Inr not_found"
    by (simp add: fetch_handler_unfold fetch_unfold world_installed_def request_matches_def
        Request_def net_up_def)
  from interleaved_fetches_independent [OF l0 c0, of net_up world_installed]
    interleaved_fetches_independent [OF l1 c1, of net_up world_installed] h0 h1
  show ?thesis by simp
qed

end
